theory Spec2Isabelle
  imports Complex_Main
begin

section \<open>JavaScript strings\<close>

text \<open>
  A JavaScript string is a sequence of UTF-16 code units. The model takes \<open>string\<close>
  (a list of \<open>char\<close>) and reads each character as one code unit in the range 0..255
  (the Latin-1 block), so that \<open>length\<close> is the \<open>.length\<close> of the source. Code units
  above 255 are outside the model.
\<close>

definition lowerChar :: "char \<Rightarrow> char" where
  "lowerChar c =
     (let n = (of_char c :: nat)
      in if (65 \<le> n \<and> n \<le> 90) \<or> (192 \<le> n \<and> n \<le> 222 \<and> n \<noteq> 215)
         then char_of (n + 32) else c)"

text \<open>\<open>String.prototype.toLowerCase\<close>, on code units below 256.\<close>

definition toLowerCase :: "string \<Rightarrow> string" where
  "toLowerCase s = map lowerChar s"

text \<open>
  The canonical form a regular expression with the \<open>i\<close> flag compares characters by
  (upper-casing, when the result is one code unit; the upper case of code units 181 and 255
  lies above 255 and equals the upper case of no other code unit below 256, so these two
  are kept as they are).
\<close>

definition canonicalize :: "char \<Rightarrow> char" where
  "canonicalize c =
     (let n = (of_char c :: nat)
      in if (97 \<le> n \<and> n \<le> 122) \<or> (224 \<le> n \<and> n \<le> 254 \<and> n \<noteq> 247)
         then char_of (n - 32) else c)"

text \<open>The white space of \<open>\s\<close> and the digits of \<open>\d\<close>, below 256.\<close>

definition isSpace :: "char \<Rightarrow> bool" where
  "isSpace c = ((of_char c :: nat) \<in> {9, 10, 11, 12, 13, 32, 160})"

definition isDigit :: "char \<Rightarrow> bool" where
  "isDigit c = (48 \<le> (of_char c :: nat) \<and> (of_char c :: nat) \<le> 57)"

text \<open>\<open>hay.includes(needle)\<close>: the needle starts at some position of the hay.\<close>

fun includes_str :: "string \<Rightarrow> string \<Rightarrow> bool" where
  "includes_str [] needle = (needle = [])"
| "includes_str (c # cs) needle =
     (take (length needle) (c # cs) = needle \<or> includes_str cs needle)"

text \<open>
  \<open>text.match(new RegExp(keyword, 'gi'))\<close> for a keyword made of letters and spaces (every
  keyword of the source is): the pattern is the keyword itself, compared without regard to
  case. \<open>matchesAt\<close> says that the keyword matches at the start of the text.
\<close>

fun matchesAt :: "string \<Rightarrow> string \<Rightarrow> bool" where
  "matchesAt [] cs = True"
| "matchesAt (k # ks) [] = False"
| "matchesAt (k # ks) (c # cs) =
     (if canonicalize k = canonicalize c then matchesAt ks cs else False)"

text \<open>
  The number of matches that the global flag gives: the scan goes left to right and resumes
  after each match, so matches do not overlap (\<open>matches ? matches.length : 0\<close>). An empty
  pattern matches once at every position, the end included.
\<close>

function countMatches :: "string \<Rightarrow> string \<Rightarrow> nat" where
  "countMatches keyword text =
     (if text = [] then (if keyword = [] then 1 else 0)
      else if matchesAt keyword text
           then 1 + countMatches keyword (drop (max 1 (length keyword)) text)
           else countMatches keyword (tl text))"
  by pat_completeness auto
termination
  by (relation "measure (\<lambda>(keyword, text). length text)") auto

declare countMatches.simps [simp del]

section \<open>Categorizer\<close>

text \<open>
  The object \<open>categories\<close> of \<open>categorizeArticle\<close>, as the list of its entries in
  declaration order, the order in which \<open>Object.entries\<close> walks it.
\<close>

definition categoryKeywords :: "(string \<times> string list) list" where
  "categoryKeywords =
    [(''military'',
       [''military'', ''army'', ''defense'', ''weapons'', ''troops'', ''soldier'',
        ''war'', ''combat'', ''attack'', ''missile'', ''security force'', ''border'',
        ''terrorist'', ''airforce'', ''navy'', ''artillery'', ''ceasefire'']),
     (''diplomatic'',
       [''diplomatic'', ''talks'', ''embassy'', ''minister'', ''peace'', ''treaty'',
        ''negotiate'', ''relation'', ''dialogue'', ''summit'', ''delegation'',
        ''diplomat'', ''foreign'', ''agreement'', ''bilateral'', ''cooperation'']),
     (''economic'',
       [''trade'', ''sanctions'', ''economy'', ''business'', ''market'', ''export'',
        ''import'', ''investment'', ''economic'', ''finance'', ''commerce'',
        ''tariff'', ''stock'', ''currency'', ''inflation'', ''gdp'', ''fiscal'']),
     (''social'',
       [''cultural'', ''people'', ''society'', ''civilian'', ''humanitarian'',
        ''refugee'', ''education'', ''health'', ''religion'', ''festival'',
        ''tradition'', ''community'', ''social'', ''public'', ''citizen''])]"

text \<open>The \<open>reduce\<close> over the keywords of one category.\<close>

definition keywordScore :: "string \<Rightarrow> string list \<Rightarrow> nat" where
  "keywordScore textLower keywords =
     foldl (\<lambda>score keyword. score + countMatches keyword textLower) 0 keywords"

text \<open>The object \<open>scores\<close> after the first loop, as its entries in order.\<close>

definition scores :: "string \<Rightarrow> (string \<times> nat) list" where
  "scores textLower =
     map (\<lambda>(category, keywords). (category, keywordScore textLower keywords)) categoryKeywords"

text \<open>One round of the second loop, on the pair \<open>(maxCategory, maxScore)\<close>.\<close>

definition maxStep :: "string \<times> nat \<Rightarrow> string \<times> nat \<Rightarrow> string \<times> nat" where
  "maxStep acc entry = (if snd entry > snd acc then entry else acc)"

definition categorizeArticle :: "string \<Rightarrow> string" where
  "categorizeArticle text =
     (let textLower = toLowerCase text;
          (maxCategory, maxScore) = foldl maxStep (''other'', 0) (scores textLower)
      in if maxScore > 0 then maxCategory else ''other'')"

text \<open>The score of one category by name (0 for a name that is not a category).\<close>

definition categoryScore :: "string \<Rightarrow> string \<Rightarrow> nat" where
  "categoryScore text category =
     (case map_of categoryKeywords category of
        None \<Rightarrow> 0
      | Some keywords \<Rightarrow> keywordScore (toLowerCase text) keywords)"

definition categoryNames :: "string list" where
  "categoryNames = map fst categoryKeywords"

section \<open>Priority classifier\<close>

definition highPriorityKeywords :: "string list" where
  "highPriorityKeywords =
     [''attack'', ''war'', ''missile'', ''conflict'', ''crisis'', ''military'',
      ''border'', ''violated'', ''threat'', ''army'', ''defense'', ''security'',
      ''nuclear'', ''weapon'', ''terrorism'', ''tension'', ''dispute'']"

definition containsHighPriorityKeyword :: "string \<Rightarrow> bool" where
  "containsHighPriorityKeyword text =
     list_ex (\<lambda>keyword. includes_str (toLowerCase text) keyword) highPriorityKeywords"

definition isPriorityArticle :: "string \<Rightarrow> string \<Rightarrow> int \<Rightarrow> bool" where
  "isPriorityArticle text category sentiment =
     ((category = ''military'' \<and> containsHighPriorityKeyword text) \<or>
      (category = ''diplomatic'' \<and> sentiment < -2) \<or>
      (containsHighPriorityKeyword text \<and> sentiment < -3))"

text \<open>
  What the rule calls a case-insensitive substring: some stretch of the text is the keyword
  when both are lower-cased.
\<close>

definition occursIgnoringCase :: "string \<Rightarrow> string \<Rightarrow> bool" where
  "occursIgnoringCase keyword text =
     (\<exists>pre w suf. text = pre @ w @ suf \<and> toLowerCase w = toLowerCase keyword)"

section \<open>Articles\<close>

text \<open>
  A string field of a provider article that may be missing: \<open>undefined\<close>, \<open>null\<close> or a
  string. \<open>toStr\<close> is the conversion that \<open>+\<close> applies when it concatenates the field with a
  string; \<open>orEmpty\<close> is \<open>field || ''\<close>.
\<close>

datatype jsfield = Undefined | Null | Str string

fun toStr :: "jsfield \<Rightarrow> string" where
  "toStr Undefined = ''undefined''"
| "toStr Null = ''null''"
| "toStr (Str s) = s"

fun orEmpty :: "jsfield \<Rightarrow> string" where
  "orEmpty Undefined = []"
| "orEmpty Null = []"
| "orEmpty (Str s) = s"

text \<open>
  The result of the sentiment library's \<open>analyze\<close>. The library is outside the repository:
  the analyzer is a parameter of the model. \<open>comparative\<close> is a floating-point number that
  the program only passes on.
\<close>

record sentimentScore =
  score :: int
  comparative :: real
  positive :: "string list"
  negative :: "string list"

text \<open>
  An article of the provider. \<open>publishedAt\<close> is the time stamp as milliseconds since the
  epoch (the provider sends a valid date string, which \<open>moment\<close> and \<open>Date\<close> parse);
  \<open>source\<close> is the \<open>name\<close> of the \<open>source\<close> object, \<open>None\<close> when the article has no such
  object; \<open>image_url\<close> is the field \<open>image\<close>.
\<close>

record rawArticle =
  title :: jsfield
  description :: jsfield
  url :: string
  image_url :: string
  publishedAt :: int
  source :: "string option"

text \<open>The annotated article: the fields of the provider's article (\<open>...article\<close>) and the labels.\<close>

record article = rawArticle +
  urlToImage :: string
  sentiment :: int
  sentimentDetail :: sentimentScore
  category :: string
  isPriority :: bool

text \<open>The text that one round of \<open>data.articles.map\<close> analyzes, and the round itself.\<close>

definition textToAnalyze :: "rawArticle \<Rightarrow> string" where
  "textToAnalyze article = toStr (title article) @ '' '' @ orEmpty (description article)"

definition annotate :: "(string \<Rightarrow> sentimentScore) \<Rightarrow> rawArticle \<Rightarrow> article" where
  "annotate analyze article =
     (let sentimentScore = analyze (textToAnalyze article);
          category = categorizeArticle (textToAnalyze article)
      in rawArticle.extend article
           (article.fields (image_url article) (score sentimentScore) sentimentScore category
              (isPriorityArticle (textToAnalyze article) category (score sentimentScore))))"

definition processedArticles :: "(string \<Rightarrow> sentimentScore) \<Rightarrow> rawArticle list \<Rightarrow> article list" where
  "processedArticles analyze articles = map (annotate analyze) articles"

section \<open>Crisis level\<close>

datatype crisis = Normal | Moderate | Elevated | Severe

text \<open>
  \<open>moment().diff(moment(t), 'hours')\<close>: the difference in milliseconds divided by 3600000
  and truncated towards zero. \<open>clock\<close> is what \<open>moment()\<close> reads.
\<close>

definition hoursDiff :: "int \<Rightarrow> int \<Rightarrow> int" where
  "hoursDiff clock t =
     (let d = clock - t in if d \<ge> 0 then d div 3600000 else - ((- d) div 3600000))"

text \<open>
  \<open>assessCrisisLevel(articles)\<close> has one parameter. It reads the wall clock through
  \<open>moment()\<close>; that reading is the first argument of the model.
\<close>

definition assessCrisisLevel :: "int \<Rightarrow> article list \<Rightarrow> crisis" where
  "assessCrisisLevel clock articles =
     (if articles = [] then Normal
      else
        let recentArticles = filter (\<lambda>a. hoursDiff clock (publishedAt a) < 48) articles;
            negativeMilitaryCount =
              length (filter (\<lambda>a. category a = ''military'' \<and> sentiment a < -2) recentArticles);
            negativeDiplomaticCount =
              length (filter (\<lambda>a. category a = ''diplomatic'' \<and> sentiment a < -2) recentArticles)
        in if negativeMilitaryCount \<ge> 5 \<or> negativeMilitaryCount + negativeDiplomaticCount \<ge> 8
           then Severe
           else if negativeMilitaryCount \<ge> 3 \<or> negativeMilitaryCount + negativeDiplomaticCount \<ge> 5
           then Elevated
           else if negativeMilitaryCount \<ge> 1 \<or> negativeDiplomaticCount \<ge> 2
           then Moderate
           else Normal)"

text \<open>The order of the levels.\<close>

fun rank :: "crisis \<Rightarrow> nat" where
  "rank Normal = 0"
| "rank Moderate = 1"
| "rank Elevated = 2"
| "rank Severe = 3"

section \<open>Analytics\<close>

subsection \<open>Sorting\<close>

text \<open>
  \<open>Array.prototype.sort\<close> with a comparator. The sort is stable, and for a consistent
  comparator every stable sort returns the same list; insertion from the right computes it.
  \<open>cmp a b \<le> 0\<close> keeps \<open>a\<close> before \<open>b\<close>.
\<close>

fun insertBy :: "('a \<Rightarrow> 'a \<Rightarrow> int) \<Rightarrow> 'a \<Rightarrow> 'a list \<Rightarrow> 'a list" where
  "insertBy cmp x [] = [x]"
| "insertBy cmp x (y # ys) = (if cmp x y \<le> 0 then x # y # ys else y # insertBy cmp x ys)"

definition sortBy :: "('a \<Rightarrow> 'a \<Rightarrow> int) \<Rightarrow> 'a list \<Rightarrow> 'a list" where
  "sortBy cmp xs = foldr (insertBy cmp) xs []"

text \<open>\<open>xs[0]\<close>, which is \<open>undefined\<close> on an empty array.\<close>

fun first :: "'a list \<Rightarrow> 'a option" where
  "first [] = None"
| "first (x # xs) = Some x"

subsection \<open>Trending keywords\<close>

definition excludedWords :: "string list" where
  "excludedWords =
     [''the'', ''and'', ''of'', ''in'', ''to'', ''a'', ''is'', ''for'', ''on'', ''with'',
      ''as'', ''at'', ''by'']"

text \<open>\<open>/^\d+$/.test(word)\<close>\<close>

definition isNumeric :: "string \<Rightarrow> bool" where
  "isNumeric word = (word \<noteq> [] \<and> list_all isDigit word)"

text \<open>
  \<open>text.split(/\s+/)\<close>: \<open>inGap\<close> says that the scan is inside a run of white space,
  \<open>cur\<close> is the piece read so far, reversed. A text that starts or ends with white space
  gives an empty first or last piece, as in the source.
\<close>

fun splitAux :: "bool \<Rightarrow> string \<Rightarrow> string \<Rightarrow> string list" where
  "splitAux inGap cur [] = [rev cur]"
| "splitAux inGap cur (c # cs) =
     (if isSpace c
      then (if inGap then splitAux True [] cs else rev cur # splitAux True [] cs)
      else splitAux False (c # cur) cs)"

definition split_ws :: "string \<Rightarrow> string list" where
  "split_ws text = splitAux False [] text"

text \<open>The text and the words of one article in the keyword loop.\<close>

definition articleText :: "article \<Rightarrow> string" where
  "articleText a = toLowerCase (toStr (title a) @ '' '' @ toStr (description a))"

definition articleWords :: "article \<Rightarrow> string list" where
  "articleWords a =
     filter (\<lambda>word. length word > 3 \<and> word \<notin> set excludedWords \<and> \<not> isNumeric word)
       (split_ws (articleText a))"

text \<open>
  The object \<open>keywords\<close>, as the list of its own properties in insertion order, the order
  of \<open>Object.entries\<close> (no key is an array index: numeric words are dropped). A value is a
  number or, after a word that names a property inherited from \<open>Object.prototype\<close>, a string
  that is not a number (the text of the inherited function followed by 1).
\<close>

datatype tally = Num nat | Text

definition objectPrototypeNames :: "string list" where
  "objectPrototypeNames =
     [''constructor'', ''__defineGetter__'', ''__defineSetter__'', ''hasOwnProperty'',
      ''__lookupGetter__'', ''__lookupSetter__'', ''isPrototypeOf'', ''propertyIsEnumerable'',
      ''toString'', ''valueOf'', ''__proto__'', ''toLocaleString'']"

fun incr :: "tally \<Rightarrow> tally" where
  "incr (Num n) = Num (n + 1)"
| "incr Text = Text"

text \<open>
  \<open>keywords[word] = (keywords[word] || 0) + 1\<close>. An own property is truthy and is
  incremented in place. Without one, the read finds an inherited property or
  \<open>undefined\<close>: the inherited \<open>__proto__\<close> is an accessor whose setter ignores the string
  assigned to it; another inherited name gets an own property that holds a string; any other
  word gets the own property 1.
\<close>

definition bump :: "(string \<times> tally) list \<Rightarrow> string \<Rightarrow> (string \<times> tally) list" where
  "bump keywords word =
     (case map_of keywords word of
        Some v \<Rightarrow> map (\<lambda>(k, v). if k = word then (k, incr v) else (k, v)) keywords
      | None \<Rightarrow>
          if word = ''__proto__'' then keywords
          else if word \<in> set objectPrototypeNames then keywords @ [(word, Text)]
          else keywords @ [(word, Num 1)])"

definition keywordCounts :: "article list \<Rightarrow> (string \<times> tally) list" where
  "keywordCounts articles =
     foldl (\<lambda>keywords a. foldl bump keywords (articleWords a)) [] articles"

text \<open>
  The entries when every count is a number. On a string count the comparator \<open>b[1] - a[1]\<close>
  yields \<open>NaN\<close>, it is not a consistent comparator, and the order that \<open>sort\<close> returns is
  implementation-defined: the model gives no list then (\<open>None\<close>).
\<close>

fun numericEntries :: "(string \<times> tally) list \<Rightarrow> (string \<times> nat) list option" where
  "numericEntries [] = Some []"
| "numericEntries ((w, Num n) # es) = map_option (\<lambda>r. (w, n) # r) (numericEntries es)"
| "numericEntries ((w, Text) # es) = None"

definition byCountDesc :: "string \<times> nat \<Rightarrow> string \<times> nat \<Rightarrow> int" where
  "byCountDesc a b = int (snd b) - int (snd a)"

definition trendingKeywordsOf :: "article list \<Rightarrow> (string \<times> nat) list option" where
  "trendingKeywordsOf articles =
     map_option (\<lambda>entries. take 10 (sortBy byCountDesc entries))
       (numericEntries (keywordCounts articles))"

subsection \<open>The summary\<close>

record categoryCounts =
  military :: nat
  diplomatic :: nat
  economic :: nat
  social :: nat
  other :: nat

record sentimentTally =
  positive :: nat
  neutral :: nat
  negative :: nat

record recentInsight =
  recent_title :: jsfield
  recent_date :: int
  recent_source :: string

record sentimentInsight =
  insight_title :: jsfield
  insight_sentiment :: int
  insight_category :: string

record insights =
  mostRecent :: "recentInsight option"
  mostNegative :: "sentimentInsight option"
  mostPositive :: "sentimentInsight option"

record significantEvent =
  event_title :: jsfield
  event_date :: int
  event_category :: string
  event_sentiment :: int
  event_source :: string
  event_url :: string

text \<open>
  The object that \<open>calculateAnalytics\<close> returns, without \<open>timelineData\<close> and
  \<open>lastUpdated\<close>: neither can raise, and nothing below reads them.
\<close>

record analyticsSummary =
  categories :: categoryCounts
  sentimentCounts :: sentimentTally
  trendingKeywords :: "(string \<times> nat) list option"
  keyInsights :: insights
  crisisLevel :: crisis
  significantEvents :: "significantEvent list"

text \<open>Reading \<open>.name\<close> of a missing \<open>source\<close> object raises a \<open>TypeError\<close>.\<close>

datatype error = TypeError

definition sourceName :: "article \<Rightarrow> error + string" where
  "sourceName a = (case source a of None \<Rightarrow> Inl TypeError | Some name \<Rightarrow> Inr name)"

definition isSignificant :: "article \<Rightarrow> bool" where
  "isSignificant a =
     ((category a = ''military'' \<and> sentiment a < -3) \<or>
      (category a = ''diplomatic'' \<and> sentiment a < -4))"

definition significantEventOf :: "article \<Rightarrow> error + significantEvent" where
  "significantEventOf a =
     (case sourceName a of
        Inl e \<Rightarrow> Inl e
      | Inr name \<Rightarrow>
          Inr \<lparr>event_title = title a, event_date = publishedAt a, event_category = category a,
               event_sentiment = sentiment a, event_source = name, event_url = url a\<rparr>)"

text \<open>A \<open>map\<close> whose callback may raise: the first error ends it.\<close>

fun mapRaising :: "('a \<Rightarrow> error + 'b) \<Rightarrow> 'a list \<Rightarrow> error + 'b list" where
  "mapRaising f [] = Inr []"
| "mapRaising f (x # xs) =
     (case f x of
        Inl e \<Rightarrow> Inl e
      | Inr y \<Rightarrow> (case mapRaising f xs of Inl e \<Rightarrow> Inl e | Inr ys \<Rightarrow> Inr (y # ys)))"

definition recentInsightOf :: "article option \<Rightarrow> error + recentInsight option" where
  "recentInsightOf m =
     (case m of
        None \<Rightarrow> Inr None
      | Some a \<Rightarrow>
          (case sourceName a of
             Inl e \<Rightarrow> Inl e
           | Inr name \<Rightarrow>
               Inr (Some \<lparr>recent_title = title a, recent_date = publishedAt a,
                          recent_source = name\<rparr>)))"

definition sentimentInsightOf :: "article option \<Rightarrow> sentimentInsight option" where
  "sentimentInsightOf m =
     map_option (\<lambda>a. \<lparr>insight_title = title a, insight_sentiment = sentiment a,
                       insight_category = category a\<rparr>) m"

definition calculateAnalytics :: "int \<Rightarrow> article list \<Rightarrow> error + analyticsSummary option" where
  "calculateAnalytics clock articles =
     (if articles = [] then Inr None
      else
        let categories =
              \<lparr>military = length (filter (\<lambda>a. category a = ''military'') articles),
               diplomatic = length (filter (\<lambda>a. category a = ''diplomatic'') articles),
               economic = length (filter (\<lambda>a. category a = ''economic'') articles),
               social = length (filter (\<lambda>a. category a = ''social'') articles),
               other = length (filter (\<lambda>a. category a = ''other'') articles)\<rparr>;
            sentimentCounts =
              \<lparr>positive = length (filter (\<lambda>a. sentiment a > 0) articles),
               neutral = length (filter (\<lambda>a. sentiment a = 0) articles),
               negative = length (filter (\<lambda>a. sentiment a < 0) articles)\<rparr>;
            trendingKeywords = trendingKeywordsOf articles;
            mostRecent = first (sortBy (\<lambda>a b. publishedAt b - publishedAt a) articles);
            mostNegative = first (sortBy (\<lambda>a b. sentiment a - sentiment b) articles);
            mostPositive = first (sortBy (\<lambda>a b. sentiment b - sentiment a) articles);
            crisisLevel = assessCrisisLevel clock articles
        in case mapRaising significantEventOf (filter isSignificant articles) of
             Inl e \<Rightarrow> Inl e
           | Inr events \<Rightarrow>
               (case recentInsightOf mostRecent of
                  Inl e \<Rightarrow> Inl e
                | Inr recent \<Rightarrow>
                    Inr (Some \<lparr>categories = categories,
                               sentimentCounts = sentimentCounts,
                               trendingKeywords = trendingKeywords,
                               keyInsights =
                                 \<lparr>mostRecent = recent,
                                  mostNegative = sentimentInsightOf mostNegative,
                                  mostPositive = sentimentInsightOf mostPositive\<rparr>,
                               crisisLevel = crisisLevel,
                               significantEvents = events\<rparr>)))"

section \<open>The endpoint and its cache\<close>

record processedResponse =
  articles :: "article list"
  analytics :: "analyticsSummary option"

text \<open>The variable \<open>newsCache\<close>; \<open>lastFetched\<close> is a date, in milliseconds.\<close>

record newsCache =
  data :: "processedResponse option"
  lastFetched :: "int option"

text \<open>
  What one request finds outside the program: the API key of the environment, the date
  \<open>new Date()\<close> at the start of the handler, the reading of \<open>moment()\<close> in
  \<open>assessCrisisLevel\<close>, the outcome of the request to the provider (\<open>fetch\<close> or
  \<open>response.json()\<close> raises, or the provider answers with or without a list \<open>articles\<close>),
  and the sentiment analyzer.
\<close>

datatype fetched = Throws | Responds "rawArticle list option"

record env =
  apiKey :: "string option"
  now :: int
  clock :: int
  upstream :: fetched
  analyze :: "string \<Rightarrow> sentimentScore"

text \<open>
  The answer, \<open>res.json(...)\<close> or \<open>res.status(500).json({ error: ... })\<close> (the field
  \<open>details\<close> is left out), the cache after the request, and the number of requests sent
  to the provider.
\<close>

datatype reply = Json processedResponse | Error500 string

record outcome =
  reply :: reply
  cache :: newsCache
  fetches :: nat

text \<open>The handler from \<open>Fetching fresh news data\<close> on.\<close>

definition refresh :: "env \<Rightarrow> newsCache \<Rightarrow> outcome" where
  "refresh e newsCache =
     (if apiKey e = None \<or> apiKey e = Some []
      then \<lparr>reply = Error500 ''API key not configured'', cache = newsCache, fetches = 0\<rparr>
      else
        case upstream e of
          Throws \<Rightarrow>
            \<lparr>reply = Error500 ''Failed to fetch news data'', cache = newsCache, fetches = 1\<rparr>
        | Responds None \<Rightarrow>
            \<lparr>reply = Error500 ''Invalid API response'', cache = newsCache, fetches = 1\<rparr>
        | Responds (Some raw) \<Rightarrow>
            (let processed = processedArticles (analyze e) raw
             in case calculateAnalytics (clock e) processed of
                  Inl err \<Rightarrow>
                    \<lparr>reply = Error500 ''Failed to fetch news data'', cache = newsCache,
                     fetches = 1\<rparr>
                | Inr summary \<Rightarrow>
                    (let processedResponse = \<lparr>articles = processed, analytics = summary\<rparr>
                     in \<lparr>reply = Json processedResponse,
                         cache = \<lparr>data = Some processedResponse, lastFetched = Some (now e)\<rparr>,
                         fetches = 1\<rparr>)))"

text \<open>The handler of \<open>GET /api/news\<close>.\<close>

definition getNews :: "env \<Rightarrow> newsCache \<Rightarrow> outcome" where
  "getNews e newsCache =
     (case (data newsCache, lastFetched newsCache) of
        (Some d, Some t) \<Rightarrow>
          if now e - t < 15 * 60 * 1000
          then \<lparr>reply = Json d, cache = newsCache, fetches = 0\<rparr>
          else refresh e newsCache
      | _ \<Rightarrow> refresh e newsCache)"

text \<open>The refresh fails: the request raises, or the answer has no list of articles.\<close>

definition refreshFails :: "env \<Rightarrow> bool" where
  "refreshFails e = (upstream e = Throws \<or> upstream e = Responds None)"

section \<open>Notions of the specification and sample data\<close>

text \<open>
  The counts \<open>M\<close> and \<open>D\<close> of the crisis rule: the articles of one category that are less
  than 48 hours older than the evaluation time and whose sentiment is below -2.
\<close>

definition negativeCount :: "string \<Rightarrow> int \<Rightarrow> article list \<Rightarrow> nat" where
  "negativeCount c t arts =
     length (filter (\<lambda>a. t - publishedAt a < 48 * 3600000 \<and> category a = c \<and> sentiment a < -2) arts)"

text \<open>An annotated article with a given category, sentiment and date, for the examples.\<close>

definition labelled :: "string \<Rightarrow> int \<Rightarrow> int \<Rightarrow> article" where
  "labelled c s t =
     \<lparr>title = Str ''headline'', description = Null, url = [], image_url = [], publishedAt = t,
      source = Some ''agency'', urlToImage = [], sentiment = s,
      sentimentDetail = \<lparr>score = s, comparative = 0, positive = [], negative = []\<rparr>,
      category = c, isPriority = False\<rparr>"

text \<open>A provider article with a given title and description, for the examples.\<close>

definition rawSample :: "jsfield \<Rightarrow> jsfield \<Rightarrow> rawArticle" where
  "rawSample ti de =
     \<lparr>title = ti, description = de, url = ''u'', image_url = ''i'', publishedAt = 0,
      source = Some ''agency''\<rparr>"

text \<open>
  The cache holds a fresh entry at time \<open>t\<close>: a stored entry exists and \<open>t - fetchedAt\<close> is
  less than the TTL of 15 minutes.
\<close>

definition fresh :: "int \<Rightarrow> newsCache \<Rightarrow> bool" where
  "fresh t c = (\<exists>d t0. data c = Some d \<and> lastFetched c = Some t0 \<and> t - t0 < 15 * 60 * 1000)"

text \<open>
  An environment with a key, in which the request and the analysis happen at time \<open>t\<close> and
  the provider does \<open>f\<close>; the analyzer is a stand-in. And the cache at the start.
\<close>

definition sampleEnv :: "int \<Rightarrow> fetched \<Rightarrow> env" where
  "sampleEnv t f =
     \<lparr>apiKey = Some ''key'', now = t, clock = t, upstream = f,
      analyze = (\<lambda>text. \<lparr>score = - int (length text), comparative = 0, positive = [], negative = []\<rparr>)\<rparr>"

definition emptyCache :: newsCache where
  "emptyCache = \<lparr>data = None, lastFetched = None\<rparr>"

text \<open>
  The keyword occurs in the text at position \<open>p\<close>, without regard to case: the stretch of
  the keyword's length that starts there is the keyword when both are lower-cased.
\<close>

definition occursAt :: "string \<Rightarrow> string \<Rightarrow> nat \<Rightarrow> bool" where
  "occursAt kw t p =
     (p + length kw \<le> length t \<and> toLowerCase (take (length kw) (drop p t)) = toLowerCase kw)"

text \<open>
  The number of occurrences of a keyword that a scan from left to right counts: none when
  the keyword occurs nowhere; otherwise the leftmost occurrence counts as one and the scan
  goes on behind it, so that counted occurrences do not overlap.
\<close>

inductive occurrences :: "string \<Rightarrow> string \<Rightarrow> nat \<Rightarrow> bool" where
  none: "(\<forall>p. \<not> occursAt kw t p) \<Longrightarrow> occurrences kw t 0"
| hit: "occursAt kw t p \<Longrightarrow> (\<forall>q<p. \<not> occursAt kw t q) \<Longrightarrow>
         occurrences kw (drop (p + length kw) t) n \<Longrightarrow> occurrences kw t (Suc n)"





text \<open>
  The distinct elements of a list in the order of their first occurrence, and the words
  with their frequencies in that order.
\<close>

fun firstOccurrences :: "'a list \<Rightarrow> 'a list" where
  "firstOccurrences [] = []"
| "firstOccurrences (x # xs) = x # filter (\<lambda>y. y \<noteq> x) (firstOccurrences xs)"


text \<open>An annotated article with a given title and description, for the examples.\<close>

definition worded :: "string \<Rightarrow> string \<Rightarrow> article" where
  "worded ti de = (labelled ''other'' 0 0)\<lparr>title := Str ti, description := Str de\<rparr>"


section \<open>Characters\<close>

text \<open>The two case conversions on the bits of a character; they make evaluation cheap.\<close>

lemma canonicalize_Char:
  "canonicalize (Char b0 b1 b2 b3 b4 b5 b6 b7) =
     (if b5 \<and> b6 \<and> ((\<not> b7 \<and> (b0 \<or> b1 \<or> b2 \<or> b3 \<or> b4) \<and> \<not> (b4 \<and> b3 \<and> (b2 \<or> (b1 \<and> b0))))
                   \<or> (b7 \<and> \<not> (b0 \<and> b1 \<and> b2 \<and> b4)))
      then Char b0 b1 b2 b3 b4 False b6 b7 else Char b0 b1 b2 b3 b4 b5 b6 b7)"
  by (cases b0; cases b1; cases b2; cases b3; cases b4; cases b5; cases b6; cases b7;
      simp add: canonicalize_def char_of_eq_iff)

lemma lowerChar_Char:
  "lowerChar (Char b0 b1 b2 b3 b4 b5 b6 b7) =
     (if \<not> b5 \<and> b6 \<and> ((\<not> b7 \<and> (b0 \<or> b1 \<or> b2 \<or> b3 \<or> b4) \<and> \<not> (b4 \<and> b3 \<and> (b2 \<or> (b1 \<and> b0))))
                   \<or> (b7 \<and> \<not> (b0 \<and> b1 \<and> b2 \<and> b4)))
      then Char b0 b1 b2 b3 b4 True b6 b7 else Char b0 b1 b2 b3 b4 b5 b6 b7)"
  by (cases b0; cases b1; cases b2; cases b3; cases b4; cases b5; cases b6; cases b7;
      simp add: lowerChar_def char_of_eq_iff)

section \<open>Substrings\<close>

lemma take_length_eq_iff: "take (length needle) hay = needle \<longleftrightarrow> (\<exists>suf. hay = needle @ suf)"
  by (metis append_eq_conv_conj append_take_drop_id)

lemma includes_str_iff: "includes_str hay needle \<longleftrightarrow> (\<exists>pre suf. hay = pre @ needle @ suf)"
proof (induction hay)
  case Nil
  show ?case by simp
next
  case (Cons c cs)
  have "(\<exists>pre suf. c # cs = pre @ needle @ suf) \<longleftrightarrow>
        (\<exists>suf. c # cs = needle @ suf) \<or> (\<exists>pre suf. cs = pre @ needle @ suf)"
  proof
    assume "\<exists>pre suf. c # cs = pre @ needle @ suf"
    then obtain pre suf where eq: "c # cs = pre @ needle @ suf" by blast
    show "(\<exists>suf. c # cs = needle @ suf) \<or> (\<exists>pre suf. cs = pre @ needle @ suf)"
    proof (cases pre)
      case Nil
      with eq show ?thesis by auto
    next
      case (Cons p ps)
      with eq have "cs = ps @ needle @ suf" by simp
      then show ?thesis by blast
    qed
  next
    assume "(\<exists>suf. c # cs = needle @ suf) \<or> (\<exists>pre suf. cs = pre @ needle @ suf)"
    then show "\<exists>pre suf. c # cs = pre @ needle @ suf"
    proof
      assume "\<exists>suf. c # cs = needle @ suf"
      then obtain suf where "c # cs = [] @ needle @ suf" by auto
      then show ?thesis by blast
    next
      assume "\<exists>pre suf. cs = pre @ needle @ suf"
      then obtain pre suf where "c # cs = (c # pre) @ needle @ suf" by auto
      then show ?thesis by blast
    qed
  qed
  with Cons.IH show ?case
    by (simp only: includes_str.simps take_length_eq_iff)
qed


lemma includes_lower_iff:
  assumes "toLowerCase kw = kw"
  shows "includes_str (toLowerCase text) kw \<longleftrightarrow> occursIgnoringCase kw text"
proof
  assume "includes_str (toLowerCase text) kw"
  then obtain pre suf where "map lowerChar text = pre @ kw @ suf"
    by (auto simp: includes_str_iff toLowerCase_def)
  then obtain p r where r: "text = p @ r" "kw @ suf = map lowerChar r"
    by (auto simp: map_eq_append_conv)
  from r(2) obtain w s where w: "r = w @ s" "kw = map lowerChar w"
    by (auto simp: append_eq_map_conv)
  have "toLowerCase w = toLowerCase kw"
    using w(2) assms by (simp add: toLowerCase_def)
  moreover have "text = p @ w @ s"
    using r(1) w(1) by simp
  ultimately show "occursIgnoringCase kw text"
    unfolding occursIgnoringCase_def by blast
next
  assume "occursIgnoringCase kw text"
  then obtain pre w suf where "text = pre @ w @ suf" "toLowerCase w = kw"
    using assms by (auto simp: occursIgnoringCase_def)
  then have "toLowerCase text = toLowerCase pre @ kw @ toLowerCase suf"
    by (auto simp: toLowerCase_def)
  then show "includes_str (toLowerCase text) kw"
    unfolding includes_str_iff by blast
qed



lemma highPriorityKeywords_lower: "\<forall>kw\<in>set highPriorityKeywords. toLowerCase kw = kw"
  by (simp add: highPriorityKeywords_def toLowerCase_def lowerChar_Char)

lemma containsHighPriorityKeyword_iff:
  "containsHighPriorityKeyword text \<longleftrightarrow> (\<exists>kw\<in>set highPriorityKeywords. occursIgnoringCase kw text)"
  using highPriorityKeywords_lower
  by (auto simp: containsHighPriorityKeyword_def list_ex_iff includes_lower_iff)

text \<open>
  C4. \<open>isPriorityArticle\<close> is true exactly when one of three clauses holds: the category is
  military and the text contains a high-priority keyword as a case-insensitive substring; the
  category is diplomatic and the sentiment is below -2; the text contains a high-priority
  keyword and the sentiment is below -3. So it is false whenever the sentiment is at least -2
  and the article is not military with a keyword.
\<close>

theorem isPriorityArticle_rule:
  "(isPriorityArticle text cat s \<longleftrightarrow>
      (cat = ''military'' \<and> (\<exists>kw\<in>set highPriorityKeywords. occursIgnoringCase kw text)) \<or>
      (cat = ''diplomatic'' \<and> s < -2) \<or>
      ((\<exists>kw\<in>set highPriorityKeywords. occursIgnoringCase kw text) \<and> s < -3)) \<and>
   (s \<ge> -2 \<and> \<not> (cat = ''military'' \<and> (\<exists>kw\<in>set highPriorityKeywords. occursIgnoringCase kw text))
      \<longrightarrow> \<not> isPriorityArticle text cat s)"
  by (auto simp: isPriorityArticle_def containsHighPriorityKeyword_iff)

text \<open>
  The scenario of the specification (a military article on "troops attack near border" is a
  priority), and a diplomatic article with sentiment -2, which is not.
\<close>

theorem isPriorityArticle_rule_witness:
  "isPriorityArticle ''troops attack near border'' ''military'' (-4) \<and>
   (-2::int) \<ge> -2 \<and> \<not> isPriorityArticle ''peace talks'' ''diplomatic'' (-2)"
proof -
  have "''troops attack near border'' = ''troops '' @ ''attack'' @ '' near border''"
    by simp
  then have "occursIgnoringCase ''attack'' ''troops attack near border''"
    unfolding occursIgnoringCase_def by blast
  moreover have "''attack'' \<in> set highPriorityKeywords"
    by (simp add: highPriorityKeywords_def)
  ultimately have "\<exists>kw\<in>set highPriorityKeywords. occursIgnoringCase kw ''troops attack near border''"
    by blast
  then have "isPriorityArticle ''troops attack near border'' ''military'' (-4)"
    using isPriorityArticle_rule [of "''troops attack near border''" "''military''" "-4"] by simp
  moreover have "\<not> isPriorityArticle ''peace talks'' ''diplomatic'' (-2)"
    using isPriorityArticle_rule [of "''peace talks''" "''diplomatic''" "-2"] by simp
  ultimately show ?thesis by simp
qed

section \<open>Crisis level\<close>

lemma labelled_simps [simp]:
  "category (labelled c s t) = c" "sentiment (labelled c s t) = s"
  "publishedAt (labelled c s t) = t" "source (labelled c s t) = Some ''agency''"
  "title (labelled c s t) = Str ''headline''" "description (labelled c s t) = Null"
  by (simp_all add: labelled_def)

lemma hoursDiff_less_48: "hoursDiff t p < 48 \<longleftrightarrow> t - p < 172800000"
  by (auto simp: hoursDiff_def Let_def)

lemma negativeCount_filter:
  "length (filter (\<lambda>a. hoursDiff t (publishedAt a) < 48 \<and> category a = c \<and> sentiment a < -2) arts)
     = negativeCount c t arts"
  by (simp add: negativeCount_def hoursDiff_less_48)

lemma assessCrisisLevel_eq:
  "assessCrisisLevel t arts =
     (let M = negativeCount ''military'' t arts; D = negativeCount ''diplomatic'' t arts
      in if M \<ge> 5 \<or> M + D \<ge> 8 then Severe
         else if M \<ge> 3 \<or> M + D \<ge> 5 then Elevated
         else if M \<ge> 1 \<or> D \<ge> 2 then Moderate
         else Normal)"
proof (cases "arts = []")
  case True
  then show ?thesis by (simp add: assessCrisisLevel_def negativeCount_def)
next
  case False
  then show ?thesis
    by (simp add: assessCrisisLevel_def Let_def negativeCount_filter)
qed

lemma negativeCount_append:
  "negativeCount c t (arts @ [a]) =
     negativeCount c t arts +
       (if t - publishedAt a < 172800000 \<and> category a = c \<and> sentiment a < -2 then 1 else 0)"
  by (simp add: negativeCount_def)

text \<open>
  C2, as amended. With \<open>M\<close> and \<open>D\<close> the numbers of military and of diplomatic articles
  that are less than 48 hours older than the evaluation time and have a sentiment below -2,
  \<open>assessCrisisLevel\<close> returns severe if \<open>M \<ge> 5\<close> or \<open>M + D \<ge> 8\<close>, else elevated if
  \<open>M \<ge> 3\<close> or \<open>M + D \<ge> 5\<close>, else moderate if \<open>M \<ge> 1\<close> or \<open>D \<ge> 2\<close>, else normal, and
  normal for no articles. The evaluation time is the reading \<open>t\<close> of the wall clock that the
  function takes by itself; it is not among the parameters of \<open>assessCrisisLevel(articles)\<close>.
\<close>

theorem assessCrisisLevel_thresholds:
  "assessCrisisLevel t arts =
     (let M = negativeCount ''military'' t arts; D = negativeCount ''diplomatic'' t arts
      in if M \<ge> 5 \<or> M + D \<ge> 8 then Severe
         else if M \<ge> 3 \<or> M + D \<ge> 5 then Elevated
         else if M \<ge> 1 \<or> D \<ge> 2 then Moderate
         else Normal) \<and>
   assessCrisisLevel t [] = Normal"
proof (rule conjI)
  show "assessCrisisLevel t [] = Normal"
    by (simp add: assessCrisisLevel_def)
qed (rule assessCrisisLevel_eq)

text \<open>The scenario of the specification: six recent military articles of sentiment -3.\<close>

theorem assessCrisisLevel_thresholds_witness:
  "assessCrisisLevel 3600000 (map (labelled ''military'' (-3)) [0, 1, 2, 3, 4, 5]) = Severe"
  using assessCrisisLevel_thresholds [of 3600000 "map (labelled ''military'' (-3)) [0, 1, 2, 3, 4, 5]"]
  by (simp add: negativeCount_def)

text \<open>
  C2 as stated fails in its last part: the same call \<open>assessCrisisLevel(articles)\<close>, on one
  military article of sentiment -3 dated 0, returns moderate when the wall clock reads 0 and
  normal when it reads 48 hours later. The result depends on a time that is not a parameter.
\<close>

theorem assessCrisisLevel_clock_counterexample:
  "assessCrisisLevel 0 [labelled ''military'' (-3) 0] = Moderate \<and>
   assessCrisisLevel 172800000 [labelled ''military'' (-3) 0] = Normal"
  by (simp add: assessCrisisLevel_def hoursDiff_def)

text \<open>
  C8. Appending one more military article with sentiment below -2 inside the 48-hour window
  never lowers the level that \<open>assessCrisisLevel\<close> returns at the same evaluation time.
\<close>

theorem assessCrisisLevel_monotone:
  assumes "category a = ''military''" and "sentiment a < -2"
    and "hoursDiff t (publishedAt a) < 48"
  shows "rank (assessCrisisLevel t arts) \<le> rank (assessCrisisLevel t (arts @ [a]))"
  using assms
  by (simp add: assessCrisisLevel_eq negativeCount_append hoursDiff_less_48 Let_def)

theorem assessCrisisLevel_monotone_witness:
  "category (labelled ''military'' (-3) 7) = ''military'' \<and>
   sentiment (labelled ''military'' (-3) 7) < -2 \<and>
   hoursDiff 9 (publishedAt (labelled ''military'' (-3) 7)) < 48 \<and>
   rank (assessCrisisLevel 9 [labelled ''military'' (-3) 1, labelled ''military'' (-5) 2])
     \<le> rank (assessCrisisLevel 9
           ([labelled ''military'' (-3) 1, labelled ''military'' (-5) 2] @ [labelled ''military'' (-3) 7]))"
  using assessCrisisLevel_monotone
    [of "labelled ''military'' (-3) 7" 9 "[labelled ''military'' (-3) 1, labelled ''military'' (-5) 2]"]
  by (simp add: hoursDiff_def)

section \<open>Analytics\<close>

lemma set_insertBy: "set (insertBy cmp x ys) = insert x (set ys)"
  by (induction ys) auto

lemma set_sortBy: "set (sortBy cmp xs) = set xs"
  by (induction xs) (auto simp: sortBy_def set_insertBy)



lemma first_in_set: "first xs = Some x \<Longrightarrow> x \<in> set xs"
  by (cases xs) auto

lemma first_sortBy_in_set: "first (sortBy cmp xs) = Some x \<Longrightarrow> x \<in> set xs"
  using first_in_set [of "sortBy cmp xs" x] by (simp add: set_sortBy)

lemma mapRaising_total:
  "\<forall>x\<in>set xs. \<exists>y. f x = Inr y \<Longrightarrow> \<exists>ys. mapRaising f xs = Inr ys"
proof (induction xs)
  case Nil
  show ?case by simp
next
  case (Cons x xs)
  from Cons.prems obtain y where y: "f x = Inr y" by auto
  from Cons obtain ys where "mapRaising f xs = Inr ys" by auto
  with y show ?case by simp
qed

lemma sourceName_total: "source a \<noteq> None \<Longrightarrow> \<exists>n. sourceName a = Inr n"
  by (auto simp: sourceName_def)

lemma significantEventOf_total: "source a \<noteq> None \<Longrightarrow> \<exists>ev. significantEventOf a = Inr ev"
  by (auto simp: significantEventOf_def sourceName_def)

lemma recentInsightOf_total:
  "(\<And>a. m = Some a \<Longrightarrow> source a \<noteq> None) \<Longrightarrow> \<exists>r. recentInsightOf m = Inr r"
  by (cases m) (auto simp: recentInsightOf_def sourceName_def)

lemma calculateAnalytics_returns:
  assumes "arts \<noteq> []" and "\<forall>a\<in>set arts. source a \<noteq> None"
  shows "\<exists>s. calculateAnalytics t arts = Inr (Some s)"
proof -
  have "\<forall>a\<in>set (filter isSignificant arts). \<exists>ev. significantEventOf a = Inr ev"
    using assms(2) by (auto intro: significantEventOf_total)
  then obtain evs where evs: "mapRaising significantEventOf (filter isSignificant arts) = Inr evs"
    using mapRaising_total by blast
  have "\<exists>r. recentInsightOf (first (sortBy (\<lambda>a b. publishedAt b - publishedAt a) arts)) = Inr r"
    using assms(2) by (intro recentInsightOf_total) (auto dest: first_sortBy_in_set)
  then obtain r where r: "recentInsightOf (first (sortBy (\<lambda>a b. publishedAt b - publishedAt a) arts)) = Inr r"
    by blast
  show ?thesis
    using assms(1) evs r by (simp add: calculateAnalytics_def Let_def)
qed

lemma calculateAnalytics_fields:
  assumes "calculateAnalytics t arts = Inr (Some s)"
  shows "categories s =
           \<lparr>military = length (filter (\<lambda>a. category a = ''military'') arts),
            diplomatic = length (filter (\<lambda>a. category a = ''diplomatic'') arts),
            economic = length (filter (\<lambda>a. category a = ''economic'') arts),
            social = length (filter (\<lambda>a. category a = ''social'') arts),
            other = length (filter (\<lambda>a. category a = ''other'') arts)\<rparr>"
    and "sentimentCounts s =
           \<lparr>positive = length (filter (\<lambda>a. sentiment a > 0) arts),
            neutral = length (filter (\<lambda>a. sentiment a = 0) arts),
            negative = length (filter (\<lambda>a. sentiment a < 0) arts)\<rparr>"
    and "trendingKeywords s = trendingKeywordsOf arts"
    and "crisisLevel s = assessCrisisLevel t arts"
    and "arts \<noteq> []"
  using assms
  by (auto simp: calculateAnalytics_def Let_def split: if_splits sum.splits)

lemma sentiment_partition:
  "length (filter (\<lambda>a. sentiment a > 0) arts) + length (filter (\<lambda>a. sentiment a = 0) arts)
     + length (filter (\<lambda>a. sentiment a < 0) arts) = length arts"
  by (induction arts) auto

lemma category_partition:
  assumes "\<forall>a\<in>set arts. category a \<in> {''military'', ''diplomatic'', ''economic'', ''social'', ''other''}"
  shows "length (filter (\<lambda>a. category a = ''military'') arts)
       + length (filter (\<lambda>a. category a = ''diplomatic'') arts)
       + length (filter (\<lambda>a. category a = ''economic'') arts)
       + length (filter (\<lambda>a. category a = ''social'') arts)
       + length (filter (\<lambda>a. category a = ''other'') arts) = length arts"
  using assms by (induction arts) auto

text \<open>
  C5. On the empty list \<open>calculateAnalytics\<close> returns \<open>null\<close>, not a summary; and \<open>null\<close>
  is returned for the empty list only.
\<close>

theorem calculateAnalytics_empty:
  "calculateAnalytics t [] = Inr None \<and> (calculateAnalytics t arts = Inr None) = (arts = [])"
  by (auto simp: calculateAnalytics_def Let_def split: sum.splits)

text \<open>
  C6. For a non-empty list, the sentiment counts of the summary that \<open>calculateAnalytics\<close>
  returns are the numbers of articles with score above, equal to and below 0, and they add
  up to the number of articles. A summary is returned whenever every article has a source.
\<close>

theorem sentimentCounts_partition:
  assumes "arts \<noteq> []"
  shows "((\<forall>a\<in>set arts. source a \<noteq> None) \<longrightarrow> (\<exists>s. calculateAnalytics t arts = Inr (Some s))) \<and>
         (\<forall>s. calculateAnalytics t arts = Inr (Some s) \<longrightarrow>
            positive (sentimentCounts s) = length (filter (\<lambda>a. sentiment a > 0) arts) \<and>
            neutral (sentimentCounts s) = length (filter (\<lambda>a. sentiment a = 0) arts) \<and>
            negative (sentimentCounts s) = length (filter (\<lambda>a. sentiment a < 0) arts) \<and>
            positive (sentimentCounts s) + neutral (sentimentCounts s) + negative (sentimentCounts s)
              = length arts)"
  using assms calculateAnalytics_returns [of arts t] sentiment_partition [of arts]
  by (auto simp: calculateAnalytics_fields(2))

theorem sentimentCounts_partition_witness:
  "[labelled ''military'' (-3) 0, labelled ''other'' 0 5, labelled ''social'' 2 9] \<noteq> [] \<and>
   (\<exists>s. calculateAnalytics 10 [labelled ''military'' (-3) 0, labelled ''other'' 0 5, labelled ''social'' 2 9]
           = Inr (Some s) \<and>
        positive (sentimentCounts s) = 1 \<and> neutral (sentimentCounts s) = 1 \<and>
        negative (sentimentCounts s) = 1)"
  using sentimentCounts_partition
    [of "[labelled ''military'' (-3) 0, labelled ''other'' 0 5, labelled ''social'' 2 9]" 10]
  by auto

text \<open>
  C10. For a non-empty list whose articles all carry one of the five categories, the five
  category counts of the summary add up to the number of articles.
\<close>

theorem categories_partition:
  assumes "arts \<noteq> []"
    and "\<forall>a\<in>set arts. category a \<in> {''military'', ''diplomatic'', ''economic'', ''social'', ''other''}"
  shows "((\<forall>a\<in>set arts. source a \<noteq> None) \<longrightarrow> (\<exists>s. calculateAnalytics t arts = Inr (Some s))) \<and>
         (\<forall>s. calculateAnalytics t arts = Inr (Some s) \<longrightarrow>
            military (categories s) + diplomatic (categories s) + economic (categories s)
              + social (categories s) + other (categories s) = length arts)"
  using assms calculateAnalytics_returns [of arts t] category_partition [of arts]
  by (auto simp: calculateAnalytics_fields(1))

theorem categories_partition_witness:
  "[labelled ''military'' (-3) 0, labelled ''other'' 0 5, labelled ''military'' 2 9] \<noteq> [] \<and>
   (\<exists>s. calculateAnalytics 10 [labelled ''military'' (-3) 0, labelled ''other'' 0 5, labelled ''military'' 2 9]
           = Inr (Some s) \<and>
        military (categories s) + diplomatic (categories s) + economic (categories s)
          + social (categories s) + other (categories s) = 3)"
  using categories_partition
    [of "[labelled ''military'' (-3) 0, labelled ''other'' 0 5, labelled ''military'' 2 9]" 10]
  by auto

section \<open>Annotator\<close>

lemma annotate_raw: "rawArticle.truncate (annotate an r) = r"
  by (simp add: annotate_def Let_def rawArticle.truncate_def rawArticle.extend_def)

lemma annotate_fields:
  "title (annotate an r) = title r" "description (annotate an r) = description r"
  "source (annotate an r) = source r" "publishedAt (annotate an r) = publishedAt r"
  "sentiment (annotate an r) = score (an (textToAnalyze r))"
  "category (annotate an r) = categorizeArticle (textToAnalyze r)"
  "isPriority (annotate an r) =
     isPriorityArticle (textToAnalyze r) (categorizeArticle (textToAnalyze r)) (score (an (textToAnalyze r)))"
  by (simp_all add: annotate_def Let_def rawArticle.extend_def article.fields_def)

lemma processedArticles_order:
  "length (processedArticles an raws) = length raws \<and>
   map rawArticle.truncate (processedArticles an raws) = raws"
  by (simp add: processedArticles_def annotate_raw comp_def)

lemma textToAnalyze_cases:
  "textToAnalyze r =
     (case title r of Str s \<Rightarrow> s | Undefined \<Rightarrow> ''undefined'' | Null \<Rightarrow> ''null'') @ '' '' @
     (case description r of Str s \<Rightarrow> s | Undefined \<Rightarrow> [] | Null \<Rightarrow> [])"
  by (simp add: textToAnalyze_def split: jsfield.splits)

text \<open>
  C9 at a provider article without a title and with the description "x": the analyzed text
  is "undefined x", not " x"; the sentiment is that of "undefined x"; and the annotated
  article still has no title.
\<close>

theorem annotate_missing_title:
  "textToAnalyze (rawSample Undefined (Str ''x'')) = ''undefined x'' \<and>
   textToAnalyze (rawSample Undefined (Str ''x'')) \<noteq> '' x'' \<and>
   sentiment (annotate an (rawSample Undefined (Str ''x''))) = score (an ''undefined x'') \<and>
   title (annotate an (rawSample Undefined (Str ''x''))) = Undefined"
  by (simp add: annotate_fields textToAnalyze_def rawSample_def)

section \<open>The cache\<close>

lemma getNews_hit:
  "data c = Some d \<Longrightarrow> lastFetched c = Some t0 \<Longrightarrow> now e - t0 < 15 * 60 * 1000 \<Longrightarrow>
     getNews e c = \<lparr>reply = Json d, cache = c, fetches = 0\<rparr>"
  by (simp add: getNews_def)

lemma getNews_miss: "\<not> fresh (now e) c \<Longrightarrow> getNews e c = refresh e c"
  by (auto simp: getNews_def fresh_def split: option.splits)

lemma refresh_fails:
  "refreshFails e \<Longrightarrow> cache (refresh e c) = c \<and> (\<exists>msg. reply (refresh e c) = Error500 msg)"
  by (auto simp: refresh_def refreshFails_def)

lemma refresh_Json:
  "reply (refresh e c) = Json d \<Longrightarrow>
     cache (refresh e c) = \<lparr>data = Some d, lastFetched = Some (now e)\<rparr> \<and> fetches (refresh e c) = 1"
  by (auto simp: refresh_def Let_def split: if_splits fetched.splits option.splits sum.splits)

lemma getNews_refreshed:
  assumes "fetches (getNews e c) = 1" and "reply (getNews e c) = Json d"
  shows "cache (getNews e c) = \<lparr>data = Some d, lastFetched = Some (now e)\<rparr>"
proof (cases "fresh (now e) c")
  case True
  then have "fetches (getNews e c) = 0"
    by (auto simp: fresh_def getNews_hit)
  with assms(1) show ?thesis by simp
next
  case False
  then have "getNews e c = refresh e c" by (rule getNews_miss)
  with assms(2) show ?thesis by (simp add: refresh_Json)
qed

lemma refresh_returns:
  assumes "apiKey e = Some k" and "k \<noteq> []" and "upstream e = Responds (Some raws)"
    and "\<forall>r\<in>set raws. source r \<noteq> None"
  shows "\<exists>d. reply (refresh e c) = Json d \<and> fetches (refresh e c) = 1 \<and> articles d = processedArticles (analyze e) raws"
proof (cases "raws = []")
  case True
  with assms show ?thesis
    by (simp add: refresh_def processedArticles_def calculateAnalytics_def Let_def)
next
  case False
  then have "processedArticles (analyze e) raws \<noteq> []"
    by (simp add: processedArticles_def)
  moreover have "\<forall>a\<in>set (processedArticles (analyze e) raws). source a \<noteq> None"
    using assms(4) by (auto simp: processedArticles_def annotate_fields)
  ultimately obtain s where
    "calculateAnalytics (clock e) (processedArticles (analyze e) raws) = Inr (Some s)"
    using calculateAnalytics_returns by blast
  with assms show ?thesis
    by (simp add: refresh_def Let_def)
qed

text \<open>
  C1. While the cache holds an entry younger than the TTL, a request returns that entry
  and sends nothing to the provider. When the refresh fails (the request raises, or the
  answer has no list of articles), the cache is left as it was, and a request that had to
  refresh answers with an error. So after a request that refreshed the cache and returned
  \<open>d'\<close>, a second request within the TTL returns \<open>d'\<close> again, whatever the provider does.
\<close>

theorem getNews_cache:
  "(data c = Some d \<and> lastFetched c = Some t0 \<and> now e - t0 < 15 * 60 * 1000 \<longrightarrow>
      getNews e c = \<lparr>reply = Json d, cache = c, fetches = 0\<rparr>) \<and>
   (refreshFails e \<longrightarrow>
      cache (getNews e c) = c \<and>
      (\<not> fresh (now e) c \<longrightarrow> (\<exists>msg. reply (getNews e c) = Error500 msg))) \<and>
   (fetches (getNews e c) = 1 \<and> reply (getNews e c) = Json d' \<and> now e' - now e < 15 * 60 * 1000 \<longrightarrow>
      getNews e' (cache (getNews e c)) =
        \<lparr>reply = Json d', cache = cache (getNews e c), fetches = 0\<rparr>)"
proof (intro conjI impI)
  assume "data c = Some d \<and> lastFetched c = Some t0 \<and> now e - t0 < 15 * 60 * 1000"
  then show "getNews e c = \<lparr>reply = Json d, cache = c, fetches = 0\<rparr>"
    by (simp add: getNews_hit)
next
  assume "refreshFails e"
  then show "cache (getNews e c) = c"
    by (cases "fresh (now e) c") (auto simp: fresh_def getNews_hit getNews_miss refresh_fails)
next
  assume "refreshFails e" and "\<not> fresh (now e) c"
  then show "\<exists>msg. reply (getNews e c) = Error500 msg"
    by (simp add: getNews_miss refresh_fails)
next
  assume a: "fetches (getNews e c) = 1 \<and> reply (getNews e c) = Json d' \<and> now e' - now e < 15 * 60 * 1000"
  then have "cache (getNews e c) = \<lparr>data = Some d', lastFetched = Some (now e)\<rparr>"
    by (simp add: getNews_refreshed)
  with a show "getNews e' (cache (getNews e c)) =
        \<lparr>reply = Json d', cache = cache (getNews e c), fetches = 0\<rparr>"
    by (simp add: getNews_hit)
qed


lemma sampleEnv_simps [simp]:
  "apiKey (sampleEnv t f) = Some ''key''" "now (sampleEnv t f) = t" "clock (sampleEnv t f) = t"
  "upstream (sampleEnv t f) = f"
  by (simp_all add: sampleEnv_def)

text \<open>
  A first request at time 1000 on the empty cache fetches one article and caches the
  answer; while the provider is down, a request one minute later returns the cached answer,
  and one 15 minutes later reports an error and keeps the cache.
\<close>

theorem getNews_cache_witness:
  "\<exists>d. getNews (sampleEnv 1000 (Responds (Some [rawSample (Str ''war'') Null]))) emptyCache
         = \<lparr>reply = Json d, cache = \<lparr>data = Some d, lastFetched = Some 1000\<rparr>, fetches = 1\<rparr> \<and>
       refreshFails (sampleEnv 61000 Throws) \<and>
       getNews (sampleEnv 61000 Throws) \<lparr>data = Some d, lastFetched = Some 1000\<rparr>
         = \<lparr>reply = Json d, cache = \<lparr>data = Some d, lastFetched = Some 1000\<rparr>, fetches = 0\<rparr> \<and>
       getNews (sampleEnv 900999 Throws) \<lparr>data = Some d, lastFetched = Some 1000\<rparr>
         = \<lparr>reply = Json d, cache = \<lparr>data = Some d, lastFetched = Some 1000\<rparr>, fetches = 0\<rparr> \<and>
       (\<exists>msg. getNews (sampleEnv 901000 Throws) \<lparr>data = Some d, lastFetched = Some 1000\<rparr>
         = \<lparr>reply = Error500 msg, cache = \<lparr>data = Some d, lastFetched = Some 1000\<rparr>, fetches = 1\<rparr>)"
proof -
  let ?e = "sampleEnv 1000 (Responds (Some [rawSample (Str ''war'') Null]))"
  have miss: "getNews ?e emptyCache = refresh ?e emptyCache"
    by (simp add: getNews_def emptyCache_def)
  obtain d where d: "reply (refresh ?e emptyCache) = Json d" "fetches (refresh ?e emptyCache) = 1"
    using refresh_returns [of ?e "''key''" "[rawSample (Str ''war'') Null]" emptyCache]
    by (auto simp: rawSample_def)
  let ?c = "\<lparr>data = Some d, lastFetched = Some 1000\<rparr>"
  have c: "cache (getNews ?e emptyCache) = ?c"
    using getNews_refreshed [of ?e emptyCache d] d miss by simp
  have first: "getNews ?e emptyCache = \<lparr>reply = Json d, cache = ?c, fetches = 1\<rparr>"
    using d c miss by (cases "refresh ?e emptyCache") simp
  have fails: "refreshFails (sampleEnv 61000 Throws)" "refreshFails (sampleEnv 901000 Throws)"
    by (simp_all add: refreshFails_def)
  have second: "getNews (sampleEnv 61000 Throws) ?c = \<lparr>reply = Json d, cache = ?c, fetches = 0\<rparr>"
    using getNews_cache [of emptyCache d 0 ?e d "sampleEnv 61000 Throws"] first by simp
  have hit: "getNews (sampleEnv 900999 Throws) ?c = \<lparr>reply = Json d, cache = ?c, fetches = 0\<rparr>"
    using getNews_cache [of ?c d 1000 "sampleEnv 900999 Throws"] by simp
  have "\<not> fresh (now (sampleEnv 901000 Throws)) ?c"
    by (simp add: fresh_def)
  then have "cache (getNews (sampleEnv 901000 Throws) ?c) = ?c"
    and "\<exists>msg. reply (getNews (sampleEnv 901000 Throws) ?c) = Error500 msg"
    using getNews_cache [of ?c d 1000 "sampleEnv 901000 Throws"] fails(2) by auto
  moreover have "fetches (getNews (sampleEnv 901000 Throws) ?c) = 1"
    by (simp add: getNews_def refresh_def)
  ultimately have third: "\<exists>msg. getNews (sampleEnv 901000 Throws) ?c
         = \<lparr>reply = Error500 msg, cache = ?c, fetches = 1\<rparr>"
    by (cases "getNews (sampleEnv 901000 Throws) ?c") auto
  from first fails(1) second hit third show ?thesis by blast
qed

section \<open>Categorizer\<close>

lemma scores_eq:
  "scores (toLowerCase text) = map (\<lambda>c. (c, categoryScore text c)) categoryNames"
  by (simp add: scores_def categoryScore_def categoryNames_def categoryKeywords_def)

lemma categoryNames_eq: "categoryNames = [''military'', ''diplomatic'', ''economic'', ''social'']"
  by (simp add: categoryNames_def categoryKeywords_def)

lemma foldl_maxStep:
  "foldl maxStep (c0, m0) es = (c, m) \<Longrightarrow>
     (\<forall>e\<in>set es. snd e \<le> m) \<and> m0 \<le> m \<and>
     ((c, m) = (c0, m0) \<or>
      (\<exists>i<length es. es ! i = (c, m) \<and> m0 < m \<and> (\<forall>j<i. snd (es ! j) < m)))"
proof (induction es arbitrary: c0 m0)
  case Nil
  then show ?case by simp
next
  case (Cons e es)
  obtain c1 m1 where acc: "maxStep (c0, m0) e = (c1, m1)"
    by (cases "maxStep (c0, m0) e")
  with Cons.prems have run: "foldl maxStep (c1, m1) es = (c, m)" by simp
  note IH = Cons.IH [OF run]
  have step: "m0 \<le> m1" "snd e \<le> m1" "(c1, m1) = (c0, m0) \<or> ((c1, m1) = e \<and> m0 < m1)"
    using acc by (auto simp: maxStep_def split: if_splits)
  from IH have bound: "\<forall>x\<in>set es. snd x \<le> m" and m1: "m1 \<le> m" by auto
  have all: "\<forall>x\<in>set (e # es). snd x \<le> m"
    using bound step(2) m1 by auto
  have m0: "m0 \<le> m" using step(1) m1 by simp
  from IH have "(c, m) = (c1, m1) \<or>
      (\<exists>i<length es. es ! i = (c, m) \<and> m1 < m \<and> (\<forall>j<i. snd (es ! j) < m))" by simp
  then have "(c, m) = (c0, m0) \<or>
      (\<exists>i<length (e # es). (e # es) ! i = (c, m) \<and> m0 < m \<and> (\<forall>j<i. snd ((e # es) ! j) < m))"
  proof
    assume eq: "(c, m) = (c1, m1)"
    from step(3) show ?thesis
    proof
      assume "(c1, m1) = (c0, m0)"
      with eq show ?thesis by simp
    next
      assume "(c1, m1) = e \<and> m0 < m1"
      with eq have "e = (c, m)" "m0 < m" by auto
      then have "0 < length (e # es) \<and> (e # es) ! 0 = (c, m) \<and> m0 < m \<and>
                 (\<forall>j<0. snd ((e # es) ! j) < m)" by simp
      then show ?thesis by blast
    qed
  next
    assume "\<exists>i<length es. es ! i = (c, m) \<and> m1 < m \<and> (\<forall>j<i. snd (es ! j) < m)"
    then obtain i where i: "i < length es" "es ! i = (c, m)" "m1 < m" "\<forall>j<i. snd (es ! j) < m"
      by blast
    have "\<forall>j<Suc i. snd ((e # es) ! j) < m"
    proof (intro allI impI)
      fix j assume "j < Suc i"
      then show "snd ((e # es) ! j) < m"
        using i(3,4) step(2) by (cases j) auto
    qed
    moreover have "Suc i < length (e # es)" "(e # es) ! Suc i = (c, m)" "m0 < m"
      using i step(1) by auto
    ultimately show ?thesis by blast
  qed
  with all m0 show ?case by blast
qed


lemma categorize_fold:
  "categorizeArticle text =
     (let (maxCategory, maxScore) =
            foldl maxStep (''other'', 0) (map (\<lambda>c. (c, categoryScore text c)) categoryNames)
      in if maxScore > 0 then maxCategory else ''other'')"
  by (simp add: categorizeArticle_def scores_eq)

lemma distinct_categoryNames: "distinct categoryNames" "''other'' \<notin> set categoryNames"
  by (simp_all add: categoryNames_eq)

lemma categorize_cases:
  fixes tx :: string
  defines "sc \<equiv> categoryScore tx"
  shows "(categorizeArticle tx = ''other'' \<and> (\<forall>c\<in>set categoryNames. sc c = 0)) \<or>
         (\<exists>i<length categoryNames. categorizeArticle tx = categoryNames ! i \<and>
             0 < sc (categoryNames ! i) \<and>
             (\<forall>j<length categoryNames. sc (categoryNames ! j) \<le> sc (categoryNames ! i)) \<and>
             (\<forall>j<i. sc (categoryNames ! j) < sc (categoryNames ! i)))"
proof -
  let ?es = "map (\<lambda>c. (c, sc c)) categoryNames"
  obtain c m where run: "foldl maxStep (''other'', 0) ?es = (c, m)"
    by (cases "foldl maxStep (''other'', 0) ?es")
  have res: "categorizeArticle tx = (if m > 0 then c else ''other'')"
    using run by (simp add: categorize_fold sc_def)
  from foldl_maxStep [OF run]
  have bound: "\<forall>e\<in>set ?es. snd e \<le> m"
    and alt: "(c, m) = (''other'', 0) \<or>
              (\<exists>i<length ?es. ?es ! i = (c, m) \<and> 0 < m \<and> (\<forall>j<i. snd (?es ! j) < m))"
    by auto
  have le: "\<forall>j<length categoryNames. sc (categoryNames ! j) \<le> m"
    using bound by auto
  from alt show ?thesis
  proof
    assume "(c, m) = (''other'', 0)"
    then have "m = 0" by simp
    with le res show ?thesis
      by (auto simp: in_set_conv_nth)
  next
    assume "\<exists>i<length ?es. ?es ! i = (c, m) \<and> 0 < m \<and> (\<forall>j<i. snd (?es ! j) < m)"
    then obtain i where i: "i < length categoryNames" "?es ! i = (c, m)" "0 < m"
      "\<forall>j<i. snd (?es ! j) < m" by auto
    then have c: "c = categoryNames ! i" and m: "m = sc (categoryNames ! i)" by auto
    have "\<forall>j<i. sc (categoryNames ! j) < sc (categoryNames ! i)"
      using i(1,4) m by auto
    with i(1,3) c m le res show ?thesis by auto
  qed
qed

lemma canonicalize_lowerChar: "canonicalize (lowerChar c) = canonicalize c"
proof (cases c)
  case (Char b0 b1 b2 b3 b4 b5 b6 b7)
  show ?thesis
    unfolding Char
    by (cases b0; cases b1; cases b2; cases b3; cases b4; cases b5; cases b6; cases b7;
        simp add: lowerChar_Char canonicalize_Char)
qed

lemma canonicalize_toLowerCase: "map canonicalize (toLowerCase t) = map canonicalize t"
  by (simp add: toLowerCase_def canonicalize_lowerChar)

lemma matchesAt_canon:
  "map canonicalize t1 = map canonicalize t2 \<Longrightarrow> matchesAt kw t1 = matchesAt kw t2"
proof (induction kw arbitrary: t1 t2)
  case Nil
  show ?case by simp
next
  case (Cons k ks)
  show ?case
  proof (cases t1)
    case Nil
    with Cons.prems show ?thesis by simp
  next
    case (Cons c cs)
    with Cons.prems obtain d ds where t2: "t2 = d # ds" by (cases t2) auto
    with Cons Cons.prems have "canonicalize c = canonicalize d" "map canonicalize cs = map canonicalize ds"
      by auto
    with Cons.IH [of cs ds] Cons t2 show ?thesis by simp
  qed
qed

lemma countMatches_canon:
  "map canonicalize t1 = map canonicalize t2 \<Longrightarrow> countMatches kw t1 = countMatches kw t2"
proof (induction kw t1 arbitrary: t2 rule: countMatches.induct)
  case (1 keyword t1)
  show ?case
  proof (cases "t1 = []")
    case True
    with "1.prems" show ?thesis by (simp add: countMatches.simps)
  next
    case False
    with "1.prems" have ne: "t2 \<noteq> []" by auto
    have m: "matchesAt keyword t1 = matchesAt keyword t2"
      using "1.prems" by (rule matchesAt_canon)
    have d: "map canonicalize (drop n t1) = map canonicalize (drop n t2)" for n
      using "1.prems" by (simp add: drop_map [symmetric])
    have t: "map canonicalize (tl t1) = map canonicalize (tl t2)"
      using "1.prems" by (metis map_tl)
    show ?thesis
    proof (cases "matchesAt keyword t1")
      case True
      with False ne m "1.IH"(1) [OF False True d] show ?thesis
        by (subst (1 2) countMatches.simps) simp
    next
      case no: False
      with False ne m "1.IH"(2) [OF False no t] show ?thesis
        by (subst (1 2) countMatches.simps) simp
    qed
  qed
qed

lemma keywordScore_canon:
  "map canonicalize t1 = map canonicalize t2 \<Longrightarrow> keywordScore t1 kws = keywordScore t2 kws"
  by (simp add: keywordScore_def countMatches_canon [of t1 t2])

lemma categoryScore_canon:
  assumes "map canonicalize t1 = map canonicalize t2"
  shows "categoryScore t1 c = categoryScore t2 c"
proof -
  have "map canonicalize (toLowerCase t1) = map canonicalize (toLowerCase t2)"
    using assms by (simp add: canonicalize_toLowerCase)
  then have "keywordScore (toLowerCase t1) kws = keywordScore (toLowerCase t2) kws" for kws
    by (rule keywordScore_canon)
  then show ?thesis
    by (simp add: categoryScore_def split: option.splits)
qed

lemma keywordScore_Nil: "[] \<notin> set kws \<Longrightarrow> keywordScore [] kws = 0"
proof -
  have "[] \<notin> set kws \<Longrightarrow> foldl (\<lambda>score keyword. score + countMatches keyword []) n kws = n" for n
    by (induction kws arbitrary: n) (auto simp: countMatches.simps)
  then show "[] \<notin> set kws \<Longrightarrow> keywordScore [] kws = 0"
    by (simp add: keywordScore_def)
qed

lemma categoryScore_Nil: "categoryScore [] c = 0"
proof (cases "map_of categoryKeywords c")
  case None
  then show ?thesis by (simp add: categoryScore_def)
next
  case (Some kws)
  then have "(c, kws) \<in> set categoryKeywords" by (rule map_of_SomeD)
  then have "[] \<notin> set kws"
    by (auto simp: categoryKeywords_def)
  with Some show ?thesis
    by (simp add: categoryScore_def toLowerCase_def keywordScore_Nil)
qed

lemma categorize_mem:
  "categorizeArticle tx \<in> {''military'', ''diplomatic'', ''economic'', ''social'', ''other''}"
proof -
  from categorize_cases [of tx]
  have "categorizeArticle tx = ''other'' \<or> categorizeArticle tx \<in> set categoryNames"
    using nth_mem by auto
  then show ?thesis by (auto simp: categoryNames_eq)
qed

lemma categorize_named:
  assumes "categorizeArticle tx \<noteq> ''other'' \<or> \<not> (\<forall>c\<in>set categoryNames. categoryScore tx c = 0)"
  obtains k where "k < length categoryNames" "categorizeArticle tx = categoryNames ! k"
    "0 < categoryScore tx (categoryNames ! k)"
    "\<forall>j<length categoryNames. categoryScore tx (categoryNames ! j) \<le> categoryScore tx (categoryNames ! k)"
    "\<forall>j<k. categoryScore tx (categoryNames ! j) < categoryScore tx (categoryNames ! k)"
  using categorize_cases [of tx] assms by blast

lemma categorize_other_iff:
  "categorizeArticle tx = ''other'' \<longleftrightarrow> (\<forall>c\<in>set categoryNames. categoryScore tx c = 0)"
proof
  assume r: "categorizeArticle tx = ''other''"
  show "\<forall>c\<in>set categoryNames. categoryScore tx c = 0"
  proof (rule ccontr)
    assume "\<not> (\<forall>c\<in>set categoryNames. categoryScore tx c = 0)"
    then obtain k where "k < length categoryNames" "categorizeArticle tx = categoryNames ! k"
      by (rule categorize_named [OF disjI2])
    then have "categorizeArticle tx \<in> set categoryNames" by simp
    with r distinct_categoryNames(2) show False by simp
  qed
next
  assume z: "\<forall>c\<in>set categoryNames. categoryScore tx c = 0"
  show "categorizeArticle tx = ''other''"
  proof (rule ccontr)
    assume "categorizeArticle tx \<noteq> ''other''"
    then obtain k where k: "k < length categoryNames" "0 < categoryScore tx (categoryNames ! k)"
      by (rule categorize_named [OF disjI1])
    from k(1) have "categoryNames ! k \<in> set categoryNames" by simp
    with z have "categoryScore tx (categoryNames ! k) = 0" by blast
    with k(2) show False by simp
  qed
qed

lemma categorize_index_iff:
  assumes i: "i < length categoryNames"
  shows "categorizeArticle tx = categoryNames ! i \<longleftrightarrow>
        0 < categoryScore tx (categoryNames ! i) \<and>
        (\<forall>j<length categoryNames. categoryScore tx (categoryNames ! j) \<le> categoryScore tx (categoryNames ! i)) \<and>
        (\<forall>j<i. categoryScore tx (categoryNames ! j) < categoryScore tx (categoryNames ! i))"
    (is "?L \<longleftrightarrow> ?R")
proof
  assume r: ?L
  from i have "categoryNames ! i \<in> set categoryNames" by simp
  with r distinct_categoryNames(2) have "categorizeArticle tx \<noteq> ''other''" by auto
  then obtain k where k: "k < length categoryNames" "categorizeArticle tx = categoryNames ! k"
    "0 < categoryScore tx (categoryNames ! k)"
    "\<forall>j<length categoryNames. categoryScore tx (categoryNames ! j) \<le> categoryScore tx (categoryNames ! k)"
    "\<forall>j<k. categoryScore tx (categoryNames ! j) < categoryScore tx (categoryNames ! k)"
    by (rule categorize_named [OF disjI1])
  from r k(1,2) i have "k = i"
    using distinct_categoryNames(1) by (simp add: nth_eq_iff_index_eq)
  with k(3,4,5) show ?R by simp
next
  assume a: ?R
  from i have "categoryNames ! i \<in> set categoryNames" by simp
  with a have "\<not> (\<forall>c\<in>set categoryNames. categoryScore tx c = 0)" by force
  then obtain k where k: "k < length categoryNames" "categorizeArticle tx = categoryNames ! k"
    "\<forall>j<length categoryNames. categoryScore tx (categoryNames ! j) \<le> categoryScore tx (categoryNames ! k)"
    "\<forall>j<k. categoryScore tx (categoryNames ! j) < categoryScore tx (categoryNames ! k)"
    by (rule categorize_named [OF disjI2])
  have "\<not> k < i"
  proof
    assume "k < i"
    with a have "categoryScore tx (categoryNames ! k) < categoryScore tx (categoryNames ! i)" by simp
    moreover from k(3) i have "categoryScore tx (categoryNames ! i) \<le> categoryScore tx (categoryNames ! k)"
      by simp
    ultimately show False by simp
  qed
  moreover have "\<not> i < k"
  proof
    assume "i < k"
    with k(4) have "categoryScore tx (categoryNames ! i) < categoryScore tx (categoryNames ! k)" by simp
    moreover from a k(1) have "categoryScore tx (categoryNames ! k) \<le> categoryScore tx (categoryNames ! i)"
      by simp
    ultimately show False by simp
  qed
  ultimately have "k = i" by simp
  with k(2) show ?L by simp
qed

lemma lowerChar_canonicalize: "lowerChar (canonicalize c) = lowerChar c"
proof (cases c)
  case (Char b0 b1 b2 b3 b4 b5 b6 b7)
  show ?thesis
    unfolding Char
    by (cases b0; cases b1; cases b2; cases b3; cases b4; cases b5; cases b6; cases b7;
        simp add: lowerChar_Char canonicalize_Char)
qed

lemma canon_eq_iff_lower_eq:
  "map canonicalize xs = map canonicalize ys \<longleftrightarrow> toLowerCase xs = toLowerCase ys"
proof
  assume "map canonicalize xs = map canonicalize ys"
  then have "map lowerChar (map canonicalize xs) = map lowerChar (map canonicalize ys)"
    by simp
  then show "toLowerCase xs = toLowerCase ys"
    by (simp add: toLowerCase_def comp_def lowerChar_canonicalize)
next
  assume "toLowerCase xs = toLowerCase ys"
  then have "map canonicalize (toLowerCase xs) = map canonicalize (toLowerCase ys)"
    by simp
  then show "map canonicalize xs = map canonicalize ys"
    by (simp only: canonicalize_toLowerCase)
qed

lemma matchesAt_iff:
  "matchesAt kw t \<longleftrightarrow>
     length kw \<le> length t \<and> map canonicalize (take (length kw) t) = map canonicalize kw"
proof (induction kw arbitrary: t)
  case Nil
  show ?case by simp
next
  case (Cons k ks)
  show ?case
  proof (cases t)
    case Nil
    then show ?thesis by simp
  next
    case (Cons c cs)
    with Cons.IH [of cs] show ?thesis by auto
  qed
qed

lemma matchesAt_occursAt: "matchesAt kw t \<longleftrightarrow> occursAt kw t 0"
  by (simp add: matchesAt_iff occursAt_def canon_eq_iff_lower_eq)

lemma occursAt_Suc: "occursAt kw (c # cs) (Suc p) \<longleftrightarrow> occursAt kw cs p"
  by (simp add: occursAt_def)

lemma occurrences_Cons:
  assumes "\<not> occursAt kw (c # cs) 0" and "occurrences kw cs n"
  shows "occurrences kw (c # cs) n"
  using assms(2)
proof (cases rule: occurrences.cases)
  case none
  have "\<not> occursAt kw (c # cs) p" for p
    using assms(1) none(2) by (cases p) (simp_all add: occursAt_Suc)
  with none(1) show ?thesis by (simp add: occurrences.none)
next
  case (hit p m)
  have "occursAt kw (c # cs) (Suc p)"
    using hit(2) by (simp add: occursAt_Suc)
  moreover have "\<forall>q<Suc p. \<not> occursAt kw (c # cs) q"
  proof (intro allI impI)
    fix q assume "q < Suc p"
    then show "\<not> occursAt kw (c # cs) q"
      using assms(1) hit(3) by (cases q) (simp_all add: occursAt_Suc)
  qed
  moreover have "occurrences kw (drop (Suc p + length kw) (c # cs)) m"
    using hit(4) by simp
  ultimately have "occurrences kw (c # cs) (Suc m)"
    by (rule occurrences.hit)
  with hit(1) show ?thesis by simp
qed

lemma occurrences_countMatches:
  "kw \<noteq> [] \<Longrightarrow> occurrences kw t (countMatches kw t)"
proof (induction kw t rule: countMatches.induct)
  case (1 keyword t)
  show ?case
  proof (cases "t = []")
    case True
    with "1.prems" have "\<forall>p. \<not> occursAt keyword t p"
      by (simp add: occursAt_def)
    then have "occurrences keyword t 0" by (rule occurrences.none)
    with True "1.prems" show ?thesis by (simp add: countMatches.simps)
  next
    case False
    show ?thesis
    proof (cases "matchesAt keyword t")
      case True
      have len: "max 1 (length keyword) = 0 + length keyword"
        using "1.prems" by (cases keyword) simp_all
      have "occurrences keyword (drop (0 + length keyword) t)
              (countMatches keyword (drop (max 1 (length keyword)) t))"
        using "1.IH"(1) [OF False True "1.prems"] len by simp
      moreover have "occursAt keyword t 0"
        using True by (simp add: matchesAt_occursAt)
      moreover have "\<forall>q<0. \<not> occursAt keyword t q" by simp
      ultimately have "occurrences keyword t (Suc (countMatches keyword (drop (max 1 (length keyword)) t)))"
        by (rule occurrences.hit [rotated 2])
      with False True show ?thesis
        by (subst countMatches.simps) simp
    next
      case no: False
      from False obtain c cs where t: "t = c # cs" by (cases t) auto
      have "occurrences keyword (tl t) (countMatches keyword (tl t))"
        using "1.IH"(2) [OF False no "1.prems"] .
      with t no have "occurrences keyword (c # cs) (countMatches keyword cs)"
        by (intro occurrences_Cons) (simp_all add: matchesAt_occursAt)
      with False no t show ?thesis
        by (subst countMatches.simps) simp
    qed
  qed
qed

lemma occurrences_unique:
  "occurrences kw t n \<Longrightarrow> occurrences kw t m \<Longrightarrow> n = m"
proof (induction arbitrary: m rule: occurrences.induct)
  case (none kw t)
  from none.prems none.hyps show ?case
    by (cases rule: occurrences.cases) auto
next
  case (hit kw t p n)
  from hit.prems show ?case
  proof (cases rule: occurrences.cases)
    case none
    with hit.hyps(1) show ?thesis by simp
  next
    case (hit p' n')
    have "p = p'"
    proof (rule ccontr)
      assume "p \<noteq> p'"
      then have "p < p' \<or> p' < p" by auto
      with hit(2,3) hit.hyps(1,2) show False by auto
    qed
    with hit(4) have "n = n'" by (simp add: hit.IH)
    with hit(1) show ?thesis by simp
  qed
qed

lemma occursIgnoringCase_occursAt: "occursIgnoringCase kw t \<longleftrightarrow> (\<exists>p. occursAt kw t p)"
proof
  assume "occursIgnoringCase kw t"
  then obtain pre w suf where t: "t = pre @ w @ suf" and w: "toLowerCase w = toLowerCase kw"
    by (auto simp: occursIgnoringCase_def)
  from w have "length w = length kw"
    by (metis length_map toLowerCase_def)
  with t w have "occursAt kw t (length pre)"
    by (simp add: occursAt_def)
  then show "\<exists>p. occursAt kw t p" ..
next
  assume "\<exists>p. occursAt kw t p"
  then obtain p where p: "p + length kw \<le> length t"
    "toLowerCase (take (length kw) (drop p t)) = toLowerCase kw"
    by (auto simp: occursAt_def)
  have "drop p t = take (length kw) (drop p t) @ drop (length kw) (drop p t)"
    by (simp only: append_take_drop_id)
  then have "t = take p t @ take (length kw) (drop p t) @ drop (length kw) (drop p t)"
    by (metis append_take_drop_id)
  with p(2) show "occursIgnoringCase kw t"
    unfolding occursIgnoringCase_def by blast
qed

lemma occurrences_positive: "occurrences kw t n \<Longrightarrow> 0 < n \<longleftrightarrow> occursIgnoringCase kw t"
  by (cases rule: occurrences.cases) (auto simp: occursIgnoringCase_occursAt)

lemma keywordScore_sum:
  "keywordScore t kws = sum_list (map (\<lambda>kw. countMatches kw t) kws)"
proof -
  have "foldl (\<lambda>score keyword. score + countMatches keyword t) a kws =
          a + sum_list (map (\<lambda>kw. countMatches kw t) kws)" for a
    by (induction kws arbitrary: a) auto
  then show ?thesis by (simp add: keywordScore_def)
qed

lemma categoryKeywords_nonempty:
  assumes "map_of categoryKeywords c = Some kws"
  shows "[] \<notin> set kws"
proof -
  from assms have "(c, kws) \<in> set categoryKeywords" by (rule map_of_SomeD)
  then show ?thesis by (auto simp: categoryKeywords_def)
qed

lemma categoryNames_table: "c \<in> set categoryNames \<Longrightarrow> \<exists>kws. map_of categoryKeywords c = Some kws"
  by (auto simp: categoryNames_eq categoryKeywords_def)

lemma countMatches_toLowerCase: "countMatches kw (toLowerCase t) = countMatches kw t"
  by (rule countMatches_canon) (rule canonicalize_toLowerCase)

lemma list_all2_functional:
  assumes "list_all2 P xs ys" and "\<And>x y. x \<in> set xs \<Longrightarrow> P x y \<Longrightarrow> y = f x"
  shows "ys = map f xs"
  using assms by (induction rule: list_all2_induct) auto

lemma categoryScore_occurrences:
  assumes "map_of categoryKeywords c = Some kws"
  shows "list_all2 (\<lambda>kw n. occurrences kw tx n) kws (map (\<lambda>kw. countMatches kw tx) kws)"
    and "list_all2 (\<lambda>kw n. occurrences kw tx n) kws ns \<Longrightarrow> categoryScore tx c = sum_list ns"
    and "0 < categoryScore tx c \<longleftrightarrow> (\<exists>kw\<in>set kws. occursIgnoringCase kw tx)"
proof -
  have ne: "\<And>kw. kw \<in> set kws \<Longrightarrow> kw \<noteq> []"
    using categoryKeywords_nonempty [OF assms] by auto
  have occ: "\<And>kw. kw \<in> set kws \<Longrightarrow> occurrences kw tx (countMatches kw tx)"
    using ne by (simp add: occurrences_countMatches)
  have score: "categoryScore tx c = sum_list (map (\<lambda>kw. countMatches kw tx) kws)"
    using assms by (simp add: categoryScore_def keywordScore_sum countMatches_toLowerCase)
  show "list_all2 (\<lambda>kw n. occurrences kw tx n) kws (map (\<lambda>kw. countMatches kw tx) kws)"
    using occ by (simp add: list_all2_map2 list_all2_same)
  show "categoryScore tx c = sum_list ns" if "list_all2 (\<lambda>kw n. occurrences kw tx n) kws ns"
  proof -
    have "ns = map (\<lambda>kw. countMatches kw tx) kws"
      using that
    proof (rule list_all2_functional)
      fix kw n assume "kw \<in> set kws" and "occurrences kw tx n"
      with occ show "n = countMatches kw tx"
        by (blast intro: occurrences_unique)
    qed
    with score show ?thesis by simp
  qed
  have "0 < sum_list (map f ks) \<longleftrightarrow> (\<exists>k\<in>set ks. 0 < f k)" for f :: "string \<Rightarrow> nat" and ks
    by (induction ks) auto
  then have "0 < categoryScore tx c \<longleftrightarrow> (\<exists>kw\<in>set kws. 0 < countMatches kw tx)"
    by (simp only: score)
  also have "\<dots> \<longleftrightarrow> (\<exists>kw\<in>set kws. occursIgnoringCase kw tx)"
    using occ occurrences_positive by blast
  finally show "0 < categoryScore tx c \<longleftrightarrow> (\<exists>kw\<in>set kws. occursIgnoringCase kw tx)" .
qed

text \<open>
  C3. \<open>categorizeArticle\<close> returns one of the five categories. The score of a category is
  the sum, over its keywords, of the occurrences of the keyword in the text that a scan from
  left to right counts without regard to case; it is positive exactly when some keyword of
  the category occurs in the text. The result is \<open>other\<close> exactly when every score is 0,
  the empty text included; it is the category at position \<open>i\<close> of the declaration order
  (military, diplomatic, economic, social) exactly when that score is positive, no score is
  higher, and every earlier score is strictly lower.
\<close>

theorem categorizeArticle_rule:
  "categorizeArticle tx \<in> {''military'', ''diplomatic'', ''economic'', ''social'', ''other''} \<and>
   categoryNames = [''military'', ''diplomatic'', ''economic'', ''social''] \<and>
   (categorizeArticle tx = ''other'' \<longleftrightarrow> (\<forall>c\<in>set categoryNames. categoryScore tx c = 0)) \<and>
   (\<forall>i<length categoryNames.
      categorizeArticle tx = categoryNames ! i \<longleftrightarrow>
        0 < categoryScore tx (categoryNames ! i) \<and>
        (\<forall>j<length categoryNames. categoryScore tx (categoryNames ! j) \<le> categoryScore tx (categoryNames ! i)) \<and>
        (\<forall>j<i. categoryScore tx (categoryNames ! j) < categoryScore tx (categoryNames ! i))) \<and>
   (map canonicalize tx = map canonicalize tx' \<longrightarrow> categoryScore tx c = categoryScore tx' c) \<and>
   categorizeArticle [] = ''other'' \<and>
   (\<forall>c\<in>set categoryNames. \<exists>kws. map_of categoryKeywords c = Some kws) \<and>
   (map_of categoryKeywords c = Some kws \<longrightarrow>
      (\<exists>ns. list_all2 (\<lambda>kw n. occurrences kw tx n) kws ns) \<and>
      (\<forall>ns. list_all2 (\<lambda>kw n. occurrences kw tx n) kws ns \<longrightarrow> categoryScore tx c = sum_list ns) \<and>
      (0 < categoryScore tx c \<longleftrightarrow> (\<exists>kw\<in>set kws. occursIgnoringCase kw tx)))"
proof (intro conjI allI impI ballI)
  show "categorizeArticle tx \<in> {''military'', ''diplomatic'', ''economic'', ''social'', ''other''}"
    by (rule categorize_mem)
  show "categoryNames = [''military'', ''diplomatic'', ''economic'', ''social'']"
    by (rule categoryNames_eq)
  show "categorizeArticle tx = ''other'' \<longleftrightarrow> (\<forall>c\<in>set categoryNames. categoryScore tx c = 0)"
    by (rule categorize_other_iff)
  show "categorizeArticle [] = ''other''"
    by (simp add: categorize_other_iff categoryScore_Nil)
next
  fix i assume "i < length categoryNames"
  then show "categorizeArticle tx = categoryNames ! i \<longleftrightarrow>
        0 < categoryScore tx (categoryNames ! i) \<and>
        (\<forall>j<length categoryNames. categoryScore tx (categoryNames ! j) \<le> categoryScore tx (categoryNames ! i)) \<and>
        (\<forall>j<i. categoryScore tx (categoryNames ! j) < categoryScore tx (categoryNames ! i))"
    by (rule categorize_index_iff)
next
  assume "map canonicalize tx = map canonicalize tx'"
  then show "categoryScore tx c = categoryScore tx' c"
    by (rule categoryScore_canon)
next
  fix c' assume "c' \<in> set categoryNames"
  then show "\<exists>kws. map_of categoryKeywords c' = Some kws"
    by (rule categoryNames_table)
next
  assume t: "map_of categoryKeywords c = Some kws"
  from categoryScore_occurrences(1) [OF t]
  show "\<exists>ns. list_all2 (\<lambda>kw n. occurrences kw tx n) kws ns" ..
  show "0 < categoryScore tx c \<longleftrightarrow> (\<exists>kw\<in>set kws. occursIgnoringCase kw tx)"
    by (rule categoryScore_occurrences(3) [OF t])
  fix ns assume "list_all2 (\<lambda>kw n. occurrences kw tx n) kws ns"
  then show "categoryScore tx c = sum_list ns"
    by (rule categoryScore_occurrences(2) [OF t])
qed

text \<open>
  A tie: "War, peace" scores 1 for military and 1 for diplomatic, and is military; in
  capitals the scores are the same.
\<close>

lemma scores_tie: "map (categoryScore ''War, peace'') categoryNames = [1, 1, 0, 0]"
  by (simp add: categoryScore_def categoryNames_def categoryKeywords_def keywordScore_def
        toLowerCase_def lowerChar_Char canonicalize_Char countMatches.simps)

theorem categorizeArticle_rule_witness:
  "(0::nat) < length categoryNames \<and> categorizeArticle ''War, peace'' = ''military'' \<and>
   categoryScore ''War, peace'' ''military'' = 1 \<and> categoryScore ''War, peace'' ''diplomatic'' = 1 \<and>
   map canonicalize ''War, peace'' = map canonicalize ''WAR, Peace'' \<and>
   categoryScore ''WAR, Peace'' ''military'' = 1 \<and>
   ''military'' \<in> set categoryNames \<and>
   (\<exists>kws. map_of categoryKeywords ''military'' = Some kws \<and>
      (\<exists>ns. list_all2 (\<lambda>kw n. occurrences kw ''War, peace'' n) kws ns \<and> sum_list ns = 1) \<and>
      (\<exists>kw\<in>set kws. occursIgnoringCase kw ''War, peace''))"
proof -
  let ?kws = "the (map_of categoryKeywords ''military'')"
  note rule = categorizeArticle_rule [of "''War, peace''" "''WAR, Peace''" "''military''" ?kws]
  have names: "categoryNames = [''military'', ''diplomatic'', ''economic'', ''social'']"
    by (rule categoryNames_eq)
  have sc: "categoryScore ''War, peace'' ''military'' = 1" "categoryScore ''War, peace'' ''diplomatic'' = 1"
    "categoryScore ''War, peace'' ''economic'' = 0" "categoryScore ''War, peace'' ''social'' = 0"
    using scores_tie by (simp_all add: names)
  have first: "categoryNames ! 0 = ''military''" and len: "0 < length categoryNames"
    and mem: "''military'' \<in> set categoryNames"
    by (simp_all add: names)
  have "\<forall>c\<in>set categoryNames. categoryScore ''War, peace'' c \<le> 1"
    using sc by (simp add: names)
  then have le: "\<forall>j<length categoryNames.
      categoryScore ''War, peace'' (categoryNames ! j) \<le> categoryScore ''War, peace'' (categoryNames ! 0)"
    by (simp add: first sc(1))
  from rule have "\<forall>i<length categoryNames.
      categorizeArticle ''War, peace'' = categoryNames ! i \<longleftrightarrow>
        0 < categoryScore ''War, peace'' (categoryNames ! i) \<and>
        (\<forall>j<length categoryNames. categoryScore ''War, peace'' (categoryNames ! j)
            \<le> categoryScore ''War, peace'' (categoryNames ! i)) \<and>
        (\<forall>j<i. categoryScore ''War, peace'' (categoryNames ! j)
            < categoryScore ''War, peace'' (categoryNames ! i))"
    by (elim conjE)
  then have "0 < length categoryNames \<longrightarrow> (categorizeArticle ''War, peace'' = categoryNames ! 0 \<longleftrightarrow>
        0 < categoryScore ''War, peace'' (categoryNames ! 0) \<and>
        (\<forall>j<length categoryNames. categoryScore ''War, peace'' (categoryNames ! j)
            \<le> categoryScore ''War, peace'' (categoryNames ! 0)) \<and>
        (\<forall>j<0. categoryScore ''War, peace'' (categoryNames ! j)
            < categoryScore ''War, peace'' (categoryNames ! 0)))"
    by (rule spec)
  with len le have military: "categorizeArticle ''War, peace'' = ''military''"
    by (simp add: first sc(1))
  have canon: "map canonicalize ''War, peace'' = map canonicalize ''WAR, Peace''"
    by (simp add: canonicalize_Char)
  from rule have "map canonicalize ''War, peace'' = map canonicalize ''WAR, Peace'' \<longrightarrow>
      categoryScore ''War, peace'' ''military'' = categoryScore ''WAR, Peace'' ''military''"
    by (elim conjE)
  with canon sc(1) have upper: "categoryScore ''WAR, Peace'' ''military'' = 1"
    by simp
  from rule have "\<forall>c\<in>set categoryNames. \<exists>kws. map_of categoryKeywords c = Some kws"
    by (elim conjE)
  with mem have table: "map_of categoryKeywords ''military'' = Some ?kws"
    by force
  from rule have "map_of categoryKeywords ''military'' = Some ?kws \<longrightarrow>
      (\<exists>ns. list_all2 (\<lambda>kw n. occurrences kw ''War, peace'' n) ?kws ns) \<and>
      (\<forall>ns. list_all2 (\<lambda>kw n. occurrences kw ''War, peace'' n) ?kws ns \<longrightarrow>
         categoryScore ''War, peace'' ''military'' = sum_list ns) \<and>
      (0 < categoryScore ''War, peace'' ''military'' \<longleftrightarrow>
         (\<exists>kw\<in>set ?kws. occursIgnoringCase kw ''War, peace''))"
    by (elim conjE)
  with table sc(1) have "\<exists>ns. list_all2 (\<lambda>kw n. occurrences kw ''War, peace'' n) ?kws ns \<and> sum_list ns = 1"
    and "\<exists>kw\<in>set ?kws. occursIgnoringCase kw ''War, peace''"
    by auto
  with table have "\<exists>kws. map_of categoryKeywords ''military'' = Some kws \<and>
      (\<exists>ns. list_all2 (\<lambda>kw n. occurrences kw ''War, peace'' n) kws ns \<and> sum_list ns = 1) \<and>
      (\<exists>kw\<in>set kws. occursIgnoringCase kw ''War, peace'')"
    by blast
  with len military sc(1,2) canon upper mem show ?thesis
    by (intro conjI)
qed

section \<open>Trending keywords\<close>











lemma set_firstOccurrences: "set (firstOccurrences xs) = set xs"
  by (induction xs) auto

lemma distinct_firstOccurrences: "distinct (firstOccurrences xs)"
  by (induction xs) (auto simp: set_firstOccurrences)

















lemma worded_simps [simp]:
  "title (worded ti de) = Str ti" "description (worded ti de) = Str de"
  "source (worded ti de) = Some ''agency''" "category (worded ti de) = ''other''"
  "sentiment (worded ti de) = 0" "publishedAt (worded ti de) = 0"
  by (simp_all add: worded_def)








end
